theory Spec2Isabelle
  imports Complex_Main "HOL-Library.AList" "HOL-Library.Log_Nat"
begin

section \<open>Data model of the MCQ trainer (script.js)\<close>

text \<open>
  The model follows the second, final copy of the script (the one that joins continuation
  lines with a line break). JavaScript strings are modelled as \<open>string\<close>, one \<open>char\<close>
  per code unit, so the model covers code units below 256. Field names that clash with
  Isabelle keywords or constants are prefixed: \<open>q.id\<close> is \<open>qid\<close>, \<open>q.text\<close> is \<open>qtext\<close>,
  \<open>q.type\<close> is \<open>qtype\<close>, \<open>choice.text\<close> is \<open>ctext\<close>, an answer's fields carry an \<open>a\<close>, an
  input element's fields an \<open>i\<close>.
\<close>

datatype question_type = SINGLE | MULTIPLE

datatype question_status = Ungraded | Unanswered | Correct | Incorrect

record choice =
  key :: string
  ctext :: string

text \<open>The object that \<open>parseQuestionsText\<close> pushes.\<close>

record parsed_question =
  qid :: string
  qtext :: string
  explicitType :: "question_type option"
  choices :: "choice list"
  rawLine :: nat

text \<open>
  The same object once \<open>processAndRender\<close> has assigned \<open>correctKeys\<close>, \<open>explanation\<close>,
  \<open>status\<close> and \<open>type\<close>. \<open>userSelectedKeys\<close> is undefined (\<open>None\<close>) until
  \<open>handleInteraction\<close> assigns it.
\<close>

record question = parsed_question +
  correctKeys :: "string list"
  explanation :: string
  qtype :: question_type
  status :: question_status
  userSelectedKeys :: "string list option"

record answer =
  aid :: string
  acorrectKeys :: "string list"
  aexplanation :: string

record stats =
  total :: nat
  correct :: nat
  incorrect :: nat

subsection \<open>The JavaScript Map of answers\<close>

text \<open>
  A \<open>Map\<close> keeps its entries in insertion order; \<open>set\<close> on a key that is present replaces
  the value in place, on a new key it appends. \<open>get\<close> returns the value of the entry whose
  key is equal (for strings: the same sequence of code units), or undefined.
\<close>

type_synonym answers_map = "(string \<times> answer) list"

definition map_set :: "answers_map \<Rightarrow> string \<Rightarrow> answer \<Rightarrow> answers_map" where
  "map_set m k v = AList.update k v m"

definition map_get :: "answers_map \<Rightarrow> string \<Rightarrow> answer option" where
  "map_get m k = map_of m k"

section \<open>Matching (processAndRender)\<close>

definition processQuestion :: "answers_map \<Rightarrow> parsed_question \<Rightarrow> question" where
  "processQuestion answersMap q =
     (let (st, ex, ck) =
            (case map_get answersMap (qid q) of
               None \<Rightarrow> (Ungraded, ''No answer key found.'', [])
             | Some a \<Rightarrow> (Unanswered, aexplanation a, acorrectKeys a));
          ty = (case explicitType q of
                  Some t \<Rightarrow> t
                | None \<Rightarrow> if length ck > 1 then MULTIPLE else SINGLE)
      in \<lparr> qid = qid q, qtext = qtext q, explicitType = explicitType q,
           choices = choices q, rawLine = rawLine q,
           correctKeys = ck, explanation = ex, qtype = ty, status = st,
           userSelectedKeys = None \<rparr>)"

definition processAndRender ::
    "answers_map \<Rightarrow> parsed_question list \<Rightarrow> question list \<times> stats" where
  "processAndRender answersMap qs =
     (map (processQuestion answersMap) qs,
      \<lparr> total = length qs, correct = 0, incorrect = 0 \<rparr>)"

section \<open>Interaction (handleInteraction)\<close>

text \<open>
  The card of a question holds one input element per choice, in the order of the choices
  (\<open>renderQuestion\<close>). Of an input the handler reads \<open>value\<close> and \<open>checked\<close> and writes
  \<open>disabled\<close>. The CSS classes, the status icon and the explanation panel are display only
  and are left out.
\<close>

record input =
  ivalue :: string
  ichecked :: bool
  idisabled :: bool

type_synonym card = "input list"

definition renderQuestion :: "question \<Rightarrow> card" where
  "renderQuestion q =
     map (\<lambda>c. \<lparr> ivalue = key c, ichecked = False, idisabled = False \<rparr>) (choices q)"

definition lockInputs :: "card \<Rightarrow> card" where
  "lockInputs c = map (\<lambda>i. i\<lparr> idisabled := True \<rparr>) c"

definition checkedKeys :: "card \<Rightarrow> string list" where
  "checkedKeys c = map ivalue (filter ichecked c)"

definition handleInteraction ::
    "question \<Rightarrow> string \<Rightarrow> card \<Rightarrow> stats \<Rightarrow> question \<times> card \<times> stats" where
  "handleInteraction q selectedKey cardElement st =
     (if status q = Correct \<or> status q = Incorrect then (q, cardElement, st)
      else if qtype q = SINGLE then
        (if selectedKey \<in> set (correctKeys q)
         then (q\<lparr> status := Correct, userSelectedKeys := Some [selectedKey] \<rparr>,
               lockInputs cardElement, st\<lparr> correct := correct st + 1 \<rparr>)
         else (q\<lparr> status := Incorrect, userSelectedKeys := Some [selectedKey] \<rparr>,
               lockInputs cardElement, st\<lparr> incorrect := incorrect st + 1 \<rparr>))
      else
        (let ck = checkedKeys cardElement in
         if selectedKey \<notin> set (correctKeys q)
         then (q\<lparr> status := Incorrect, userSelectedKeys := Some ck \<rparr>,
               lockInputs cardElement, st\<lparr> incorrect := incorrect st + 1 \<rparr>)
         else if list_all (\<lambda>k. k \<in> set ck) (correctKeys q)
                 \<and> list_all (\<lambda>k. k \<in> set (correctKeys q)) ck
         then (q\<lparr> status := Correct, userSelectedKeys := Some ck \<rparr>,
               lockInputs cardElement, st\<lparr> correct := correct st + 1 \<rparr>)
         else (q, cardElement, st)))"

text \<open>
  The browser side of a selection. A click on a disabled input does nothing. A click on a
  checkbox flips its \<open>checked\<close> flag and then fires \<open>change\<close>; a click on a radio button
  that is not yet checked checks it, unchecks the others and fires \<open>change\<close>. The listener
  installed by \<open>renderQuestion\<close> calls \<open>handleInteraction\<close> with the key of the choice.
\<close>

definition toggleInput :: "nat \<Rightarrow> card \<Rightarrow> card" where
  "toggleInput i c = c[i := (c ! i)\<lparr> ichecked := \<not> ichecked (c ! i) \<rparr>]"

definition radioSelect :: "nat \<Rightarrow> card \<Rightarrow> card" where
  "radioSelect i c = map (\<lambda>(j, x). x\<lparr> ichecked := (j = i) \<rparr>) (enumerate 0 c)"

definition selectChoice ::
    "nat \<Rightarrow> question \<times> card \<times> stats \<Rightarrow> question \<times> card \<times> stats" where
  "selectChoice i s =
     (case s of (q, c, st) \<Rightarrow>
        if i < length c \<and> \<not> idisabled (c ! i) then
          (if qtype q = SINGLE then
             (if ichecked (c ! i) then s
              else handleInteraction q (ivalue (c ! i)) (radioSelect i c) st)
           else handleInteraction q (ivalue (c ! i)) (toggleInput i c) st)
        else s)"

text \<open>
  A session over all questions: each event names a question (by position), the key passed
  to the handler, and the state of the question's card at that moment, which is left
  arbitrary.
\<close>

definition dispatch ::
    "question list \<times> stats \<Rightarrow> nat \<times> string \<times> card \<Rightarrow> question list \<times> stats" where
  "dispatch s e =
     (case (s, e) of ((qs, st), (i, k, c)) \<Rightarrow>
        if i < length qs
        then (case handleInteraction (qs ! i) k c st of (q', c', st') \<Rightarrow> (qs[i := q'], st'))
        else (qs, st))"

definition session ::
    "question list \<times> stats \<Rightarrow> (nat \<times> string \<times> card) list \<Rightarrow> question list \<times> stats" where
  "session s es = foldl dispatch s es"

definition terminalCount :: "question list \<Rightarrow> nat" where
  "terminalCount qs = length (filter (\<lambda>q. status q = Correct \<or> status q = Incorrect) qs)"

text \<open>The events of one question, each with the card as it is when the handler runs.\<close>

fun interact :: "question \<times> stats \<Rightarrow> (string \<times> card) list \<Rightarrow> question \<times> stats" where
  "interact (q, st) [] = (q, st)"
| "interact (q, st) ((k, c) # es) =
     (case handleInteraction q k c st of (q', c', st') \<Rightarrow> interact (q', st') es)"

section \<open>Text handling\<close>

text \<open>
  \<open>isSpace\<close> is the class \<open>\s\<close> and the set that \<open>trim\<close> strips (TAB, LF, VT, FF, CR,
  space, NBSP below 256); \<open>isDigit\<close> is \<open>\d\<close>; \<open>isSep\<close> is \<open>[\.:\s]\<close>; \<open>isUpper\<close> is
  \<open>[A-Z]\<close>, and \<open>isLetter\<close> is \<open>[A-Z]\<close> under the flag \<open>i\<close>. \<open>notLineEnd\<close> is the dot,
  which matches anything but a line terminator.
\<close>

definition LF :: char where
  "LF = CHR 0x0A"

definition CR :: char where
  "CR = CHR 0x0D"

definition isSpace :: "char \<Rightarrow> bool" where
  "isSpace c = (c \<in> set [CHR 0x09, CHR 0x0A, CHR 0x0B, CHR 0x0C, CHR 0x0D, CHR '' '', CHR 0xA0])"

definition isDigit :: "char \<Rightarrow> bool" where
  "isDigit c = (c \<in> set ''0123456789'')"

definition isSep :: "char \<Rightarrow> bool" where
  "isSep c = (c = CHR ''.'' \<or> c = CHR '':'' \<or> isSpace c)"

definition isUpper :: "char \<Rightarrow> bool" where
  "isUpper c = (c \<in> set ''ABCDEFGHIJKLMNOPQRSTUVWXYZ'')"

definition isLetter :: "char \<Rightarrow> bool" where
  "isLetter c = (isUpper c \<or> c \<in> set ''abcdefghijklmnopqrstuvwxyz'')"

definition notLineEnd :: "char \<Rightarrow> bool" where
  "notLineEnd c = (c \<noteq> LF \<and> c \<noteq> CR)"

text \<open>
  \<open>toUpperCase\<close> is only ever applied to captures of \<open>[A-Z]\<close> and of \<open>Single|Multiple\<close>,
  that is to ASCII letters; other characters are left as they are.
\<close>

definition upperChar :: "char \<Rightarrow> char" where
  "upperChar c =
     (case map_of (zip ''abcdefghijklmnopqrstuvwxyz'' ''ABCDEFGHIJKLMNOPQRSTUVWXYZ'') c of
        Some u \<Rightarrow> u
      | None \<Rightarrow> c)"

definition toUpperCase :: "string \<Rightarrow> string" where
  "toUpperCase s = map upperChar s"

definition trim :: "string \<Rightarrow> string" where
  "trim s = rev (dropWhile isSpace (rev (dropWhile isSpace s)))"

text \<open>\<open>text.split(/\r?\n/)\<close>: a line feed ends a line, and takes a CR just before it along.\<close>

fun splitLines :: "string \<Rightarrow> string list" where
  "splitLines [] = [[]]"
| "splitLines (c # cs) =
     (if c = LF then [] # splitLines cs
      else if c = CR \<and> (case cs of d # _ \<Rightarrow> d = LF | [] \<Rightarrow> False) then splitLines cs
      else (case splitLines cs of l # ls \<Rightarrow> (c # l) # ls | [] \<Rightarrow> [[c]]))"

text \<open>\<open>s.split(',')\<close>.\<close>

fun splitComma :: "string \<Rightarrow> string list" where
  "splitComma [] = [[]]"
| "splitComma (c # cs) =
     (if c = CHR '','' then [] # splitComma cs
      else (case splitComma cs of l # ls \<Rightarrow> (c # l) # ls | [] \<Rightarrow> [[c]]))"

text \<open>
  A literal of the pattern under the flag \<open>i\<close>: the characters of the input are compared
  after upper-casing. Returns what follows the literal.
\<close>

definition matchLiteral :: "string \<Rightarrow> string \<Rightarrow> string option" where
  "matchLiteral lit s =
     (if toUpperCase (take (length lit) s) = toUpperCase lit
      then Some (drop (length lit) s) else None)"

section \<open>The regular expressions\<close>





text \<open>
  \<open>aStartRegex = /^(\d+)[\.:\s]*Correct:\s*([A-Z](?:\s*,\s*[A-Z])*)/i\<close>, groups 1 and 2.
  \<open>keyItems\<close> is the text matched by the repeated group \<open>(?:\s*,\s*[A-Z])*\<close>.
\<close>

function keyItems :: "string \<Rightarrow> string" where
  "keyItems s =
     (case dropWhile isSpace s of
        [] \<Rightarrow> []
      | c # s2 \<Rightarrow>
          if c = CHR '','' then
            (case dropWhile isSpace s2 of
               [] \<Rightarrow> []
             | l # s4 \<Rightarrow>
                 if isLetter l
                 then takeWhile isSpace s @ [c] @ takeWhile isSpace s2 @ [l] @ keyItems s4
                 else [])
          else [])"
  by pat_completeness auto
termination
proof (relation "measure length")
  show "wf (measure length)" by simp
next
  fix s :: string and c s2 l s4
  assume a: "dropWhile isSpace s = c # s2" and b: "dropWhile isSpace s2 = l # s4"
  have "length (dropWhile isSpace s) \<le> length s"
    and "length (dropWhile isSpace s2) \<le> length s2"
    by (rule length_dropWhile_le)+
  with a b show "(s4, s) \<in> measure length" by simp
qed

definition aStartRegex :: "string \<Rightarrow> (string \<times> string) option" where
  "aStartRegex line =
     (let ds = takeWhile isDigit line
      in if ds = [] then None
         else
           (case matchLiteral ''Correct:'' (dropWhile isSep (dropWhile isDigit line)) of
              None \<Rightarrow> None
            | Some s3 \<Rightarrow>
                (case dropWhile isSpace s3 of
                   [] \<Rightarrow> None
                 | l # r \<Rightarrow> if isLetter l then Some (ds, l # keyItems r) else None)))"

text \<open>\<open>expStartRegex = /^\s*Explanation:\s*(.*)/i\<close>, group 1.\<close>

definition expStartRegex :: "string \<Rightarrow> string option" where
  "expStartRegex line =
     (case matchLiteral ''Explanation:'' (dropWhile isSpace line) of
        None \<Rightarrow> None
      | Some r \<Rightarrow> Some (takeWhile notLineEnd (dropWhile isSpace r)))"

section \<open>parseQuestionsText\<close>




section \<open>parseAnswersText\<close>

definition answerLine ::
    "answers_map \<times> answer option \<Rightarrow> string \<Rightarrow> answers_map \<times> answer option" where
  "answerLine s raw =
     (case s of (answers, currentA) \<Rightarrow>
        (let line = trim raw in
         if line = [] then (answers, currentA)
         else
           (case aStartRegex line of
              Some (d, ks) \<Rightarrow>
                ((case currentA of Some a \<Rightarrow> map_set answers (aid a) a | None \<Rightarrow> answers),
                 Some \<lparr> aid = d,
                        acorrectKeys = map (\<lambda>k. toUpperCase (trim k)) (splitComma ks),
                        aexplanation = [] \<rparr>)
            | None \<Rightarrow>
                (case currentA of
                   None \<Rightarrow> (answers, None)
                 | Some a \<Rightarrow>
                     (case expStartRegex line of
                        Some e \<Rightarrow> (answers, Some (a\<lparr> aexplanation := e \<rparr>))
                      | None \<Rightarrow>
                          (answers,
                           Some (a\<lparr> aexplanation :=
                                     aexplanation a @ (if aexplanation a \<noteq> [] then [LF] else [])
                                       @ line \<rparr>)))))))"

text \<open>The flush after the loop: \<open>if (currentA) answers.set(currentA.id, currentA)\<close>.\<close>

definition flushAnswer :: "answers_map \<times> answer option \<Rightarrow> answers_map" where
  "flushAnswer s =
     (case s of (answers, currentA) \<Rightarrow>
        (case currentA of Some a \<Rightarrow> map_set answers (aid a) a | None \<Rightarrow> answers))"

definition parseAnswersText :: "string \<Rightarrow> answers_map" where
  "parseAnswersText txt = flushAnswer (foldl answerLine ([], None) (splitLines txt))"

text \<open>
  The answer blocks of a text, in the order of the text: each answer-start line opens a
  block, the lines up to the next answer-start line give its explanation. \<open>blockLines\<close> takes
  the block that is open and the lines still to read.
\<close>

fun blockLines :: "answer \<Rightarrow> string list \<Rightarrow> answer list" where
  "blockLines a [] = [a]"
| "blockLines a (raw # ls) =
     (let line = trim raw in
      if line = [] then blockLines a ls
      else
        (case aStartRegex line of
           Some (d, ks) \<Rightarrow>
             a # blockLines \<lparr> aid = d,
                              acorrectKeys = map (\<lambda>k. toUpperCase (trim k)) (splitComma ks),
                              aexplanation = [] \<rparr> ls
         | None \<Rightarrow>
             (case expStartRegex line of
                Some e \<Rightarrow> blockLines (a\<lparr> aexplanation := e \<rparr>) ls
              | None \<Rightarrow>
                  blockLines (a\<lparr> aexplanation :=
                                  aexplanation a @ (if aexplanation a \<noteq> [] then [LF] else [])
                                    @ line \<rparr>) ls)))"

fun answerBlocksOf :: "string list \<Rightarrow> answer list" where
  "answerBlocksOf [] = []"
| "answerBlocksOf (raw # ls) =
     (case aStartRegex (trim raw) of
        Some (d, ks) \<Rightarrow>
          blockLines \<lparr> aid = d,
                       acorrectKeys = map (\<lambda>k. toUpperCase (trim k)) (splitComma ks),
                       aexplanation = [] \<rparr> ls
      | None \<Rightarrow> answerBlocksOf ls)"

definition answerBlocks :: "string \<Rightarrow> answer list" where
  "answerBlocks txt = answerBlocksOf (splitLines txt)"

text \<open>Writing a sequence of answers into a map, each under its id, in order.\<close>

definition setAll :: "answers_map \<Rightarrow> answer list \<Rightarrow> answers_map" where
  "setAll m bs = foldl (\<lambda>m b. map_set m (aid b) b) m bs"


section \<open>The scoreboard percentage (updateScoreboard)\<close>

text \<open>
  \<open>Math.round((state.stats.correct / answered) * 100)\<close> is computed on JavaScript numbers.
  The division and the multiplication are binary64 operations: each returns the exact
  result rounded to the nearest double, a tie going to the even significand. A double is
  modelled by the rational number it denotes. \<open>binExp x\<close> is the binary exponent of a
  positive \<open>x\<close> (the \<open>e\<close> with \<open>2^e \<le> x < 2^(e+1)\<close>), and \<open>roundDouble x\<close> is the nearest
  number with a significand of 53 bits at that exponent. Only zero and positive normal
  values occur: for counters below \<open>2^53\<close>, which are exact as doubles, the quotient is 0 or
  lies between \<open>2^-53\<close> and 1. \<open>Math.round\<close> returns the nearest integer, the larger one in
  a tie.
\<close>

definition binExp :: "rat \<Rightarrow> int" where
  "binExp x = (if 1 \<le> x then bitlen \<lfloor>x\<rfloor> - 1 else - bitlen (\<lceil>1 / x\<rceil> - 1))"

definition roundHalfEven :: "rat \<Rightarrow> int" where
  "roundHalfEven y =
     (let f = \<lfloor>y\<rfloor>; d = y - of_int f
      in if d < 1 / 2 then f else if 1 / 2 < d then f + 1 else if even f then f else f + 1)"

definition roundDouble :: "rat \<Rightarrow> rat" where
  "roundDouble x =
     (if x = 0 then 0
      else (let u = 2 powi (binExp x - 52) in of_int (roundHalfEven (x / u)) * u))"

definition mathRound :: "rat \<Rightarrow> int" where
  "mathRound x = \<lfloor>x + 1 / 2\<rfloor>"

definition percent :: "stats \<Rightarrow> int" where
  "percent st =
     (let answered = correct st + incorrect st
      in if answered > 0
         then mathRound (roundDouble (roundDouble (of_nat (correct st) / of_nat answered) * 100))
         else 0)"

text \<open>
  The formula of the specification read in exact arithmetic, for comparison: the nearest
  integer to \<open>correct / (correct + incorrect) * 100\<close>, and 0 when nothing is answered.
\<close>

definition specPercent :: "stats \<Rightarrow> int" where
  "specPercent st =
     (if correct st + incorrect st > 0
      then round (of_nat (correct st) / of_nat (correct st + incorrect st) * 100 :: rat)
      else 0)"

text \<open>
  \<open>halfway c a\<close>: the exact value of \<open>c / a * 100\<close> lies halfway between two integers, that
  is \<open>200 * c + a\<close> is a multiple of \<open>2 * a\<close>.
\<close>

definition halfway :: "nat \<Rightarrow> nat \<Rightarrow> bool" where
  "halfway c a = ((200 * c + a) mod (2 * a) = 0)"


section \<open>Example data\<close>

text \<open>
  A single-choice and a multiple-choice question with the choices A to D, as they are after
  matching, a card for them with given \<open>checked\<close> flags, and an answer key in which the id 1
  occurs twice.
\<close>

definition choicesAD :: "choice list" where
  "choicesAD = [\<lparr> key = ''A'', ctext = ''first'' \<rparr>, \<lparr> key = ''B'', ctext = ''second'' \<rparr>,
                \<lparr> key = ''C'', ctext = ''third'' \<rparr>, \<lparr> key = ''D'', ctext = ''fourth'' \<rparr>]"

definition question1 :: question where
  "question1 = \<lparr> qid = ''1'', qtext = ''Pick one'', explicitType = None, choices = choicesAD,
                 rawLine = 1, correctKeys = [''B''], explanation = ''because'',
                 qtype = SINGLE, status = Unanswered, userSelectedKeys = None \<rparr>"

definition question2 :: question where
  "question2 = \<lparr> qid = ''2'', qtext = ''Pick three'', explicitType = None, choices = choicesAD,
                 rawLine = 6, correctKeys = [''B'', ''C'', ''D''], explanation = ''because'',
                 qtype = MULTIPLE, status = Unanswered, userSelectedKeys = None \<rparr>"

definition question7 :: parsed_question where
  "question7 = \<lparr> qid = ''7'', qtext = ''Pick'', explicitType = None, choices = choicesAD,
                 rawLine = 1 \<rparr>"

definition answerB :: answer where
  "answerB = \<lparr> aid = ''07'', acorrectKeys = [''B''], aexplanation = ''because'' \<rparr>"

definition stats0 :: stats where
  "stats0 = \<lparr> total = 2, correct = 0, incorrect = 0 \<rparr>"

definition cardOf :: "bool list \<Rightarrow> card" where
  "cardOf bs =
     map (\<lambda>(c, b). \<lparr> ivalue = key c, ichecked = b, idisabled = False \<rparr>) (zip choicesAD bs)"

definition answersText :: string where
  "answersText = ''1. Correct: B'' @ [LF] @ ''Explanation: first'' @ [LF] @
                 ''2. Correct: A, c'' @ [LF] @
                 ''1. Correct: D'' @ [LF] @ ''Explanation: last''"

section \<open>The interaction state machine\<close>

lemma handleInteraction_locked:
  "status q = Correct \<or> status q = Incorrect \<Longrightarrow> handleInteraction q k c st = (q, c, st)"
  by (simp add: handleInteraction_def)

lemma list_all_mem_subset: "list_all (\<lambda>k. k \<in> set ys) xs \<longleftrightarrow> set xs \<subseteq> set ys"
  by (auto simp: list_all_iff)

lemma cardOf_checked:
  "checkedKeys (cardOf [True, True, True, False]) = [''A'', ''B'', ''C'']"
  "checkedKeys (cardOf [False, True, True, True]) = [''B'', ''C'', ''D'']"
  "checkedKeys (cardOf [False, True, False, False]) = [''B'']"
  by (simp_all add: cardOf_def choicesAD_def checkedKeys_def)

text \<open>
  Claim C1. A multiple-choice question that is unanswered: a key that is not correct makes
  it incorrect, records the checked keys and counts it; a correct key with the checked keys
  equal to the correct keys as a set makes it correct, records the checked keys and counts
  it; a correct key with the checked keys a strict subset of the correct keys changes
  nothing. Once the status has left unanswered, every later call changes nothing.
\<close>

theorem multiple_toggle_transitions:
  assumes "qtype q = MULTIPLE" and "status q = Unanswered"
  shows "(k \<notin> set (correctKeys q) \<longrightarrow>
            handleInteraction q k c st
              = (q\<lparr> status := Incorrect, userSelectedKeys := Some (checkedKeys c) \<rparr>,
                 lockInputs c, st\<lparr> incorrect := incorrect st + 1 \<rparr>))
       \<and> (k \<in> set (correctKeys q) \<and> set (checkedKeys c) = set (correctKeys q) \<longrightarrow>
            handleInteraction q k c st
              = (q\<lparr> status := Correct, userSelectedKeys := Some (checkedKeys c) \<rparr>,
                 lockInputs c, st\<lparr> correct := correct st + 1 \<rparr>))
       \<and> (k \<in> set (correctKeys q) \<and> set (checkedKeys c) \<subset> set (correctKeys q) \<longrightarrow>
            handleInteraction q k c st = (q, c, st))
       \<and> (status (fst (handleInteraction q k c st)) \<noteq> Unanswered \<longrightarrow>
            (\<forall>k' c' st'. handleInteraction (fst (handleInteraction q k c st)) k' c' st'
               = (fst (handleInteraction q k c st), c', st')))"
proof (intro conjI impI)
  assume "k \<notin> set (correctKeys q)"
  then show "handleInteraction q k c st
              = (q\<lparr> status := Incorrect, userSelectedKeys := Some (checkedKeys c) \<rparr>,
                 lockInputs c, st\<lparr> incorrect := incorrect st + 1 \<rparr>)"
    using assms by (simp add: handleInteraction_def Let_def)
next
  assume "k \<in> set (correctKeys q) \<and> set (checkedKeys c) = set (correctKeys q)"
  then show "handleInteraction q k c st
              = (q\<lparr> status := Correct, userSelectedKeys := Some (checkedKeys c) \<rparr>,
                 lockInputs c, st\<lparr> correct := correct st + 1 \<rparr>)"
    using assms by (simp add: handleInteraction_def Let_def list_all_mem_subset)
next
  assume "k \<in> set (correctKeys q) \<and> set (checkedKeys c) \<subset> set (correctKeys q)"
  then show "handleInteraction q k c st = (q, c, st)"
    using assms by (auto simp: handleInteraction_def Let_def list_all_mem_subset)
next
  assume n: "status (fst (handleInteraction q k c st)) \<noteq> Unanswered"
  have "status (fst (handleInteraction q k c st)) \<in> {Unanswered, Correct, Incorrect}"
    using assms by (simp add: handleInteraction_def Let_def)
  with n have "status (fst (handleInteraction q k c st)) = Correct
             \<or> status (fst (handleInteraction q k c st)) = Incorrect" by auto
  then show "\<forall>k' c' st'. handleInteraction (fst (handleInteraction q k c st)) k' c' st'
               = (fst (handleInteraction q k c st), c', st')"
    by (intro allI handleInteraction_locked)
qed

theorem multiple_toggle_transitions_witness:
  "qtype question2 = MULTIPLE \<and> status question2 = Unanswered
   \<and> handleInteraction question2 ''A'' (cardOf [True, True, True, False]) stats0
       = (question2\<lparr> status := Incorrect, userSelectedKeys := Some [''A'', ''B'', ''C''] \<rparr>,
          lockInputs (cardOf [True, True, True, False]), stats0\<lparr> incorrect := 1 \<rparr>)
   \<and> handleInteraction question2 ''D'' (cardOf [False, True, True, True]) stats0
       = (question2\<lparr> status := Correct, userSelectedKeys := Some [''B'', ''C'', ''D''] \<rparr>,
          lockInputs (cardOf [False, True, True, True]), stats0\<lparr> correct := 1 \<rparr>)
   \<and> handleInteraction question2 ''B'' (cardOf [False, True, False, False]) stats0
       = (question2, cardOf [False, True, False, False], stats0)
   \<and> handleInteraction
         (question2\<lparr> status := Incorrect, userSelectedKeys := Some [''A'', ''B'', ''C''] \<rparr>)
         ''B'' (cardOf [True, True, True, False]) (stats0\<lparr> incorrect := 1 \<rparr>)
       = (question2\<lparr> status := Incorrect, userSelectedKeys := Some [''A'', ''B'', ''C''] \<rparr>,
          cardOf [True, True, True, False], stats0\<lparr> incorrect := 1 \<rparr>)"
proof -
  have h1: "qtype question2 = MULTIPLE" and h2: "status question2 = Unanswered"
    by (simp_all add: question2_def)
  have ck: "correctKeys question2 = [''B'', ''C'', ''D'']" by (simp add: question2_def)
  have z: "correct stats0 = 0" "incorrect stats0 = 0" by (simp_all add: stats0_def)
  note t = multiple_toggle_transitions[OF h1 h2]
  have a: "handleInteraction question2 ''A'' (cardOf [True, True, True, False]) stats0
       = (question2\<lparr> status := Incorrect, userSelectedKeys := Some [''A'', ''B'', ''C''] \<rparr>,
          lockInputs (cardOf [True, True, True, False]), stats0\<lparr> incorrect := 1 \<rparr>)"
    using t[of "''A''" "cardOf [True, True, True, False]" stats0]
    by (simp add: ck cardOf_checked z)
  have b: "handleInteraction question2 ''D'' (cardOf [False, True, True, True]) stats0
       = (question2\<lparr> status := Correct, userSelectedKeys := Some [''B'', ''C'', ''D''] \<rparr>,
          lockInputs (cardOf [False, True, True, True]), stats0\<lparr> correct := 1 \<rparr>)"
    using t[of "''D''" "cardOf [False, True, True, True]" stats0]
    by (simp add: ck cardOf_checked z)
  have c: "handleInteraction question2 ''B'' (cardOf [False, True, False, False]) stats0
       = (question2, cardOf [False, True, False, False], stats0)"
    using t[of "''B''" "cardOf [False, True, False, False]" stats0]
    by (auto simp: ck cardOf_checked)
  have d: "handleInteraction
         (question2\<lparr> status := Incorrect, userSelectedKeys := Some [''A'', ''B'', ''C''] \<rparr>)
         ''B'' (cardOf [True, True, True, False]) (stats0\<lparr> incorrect := 1 \<rparr>)
       = (question2\<lparr> status := Incorrect, userSelectedKeys := Some [''A'', ''B'', ''C''] \<rparr>,
          cardOf [True, True, True, False], stats0\<lparr> incorrect := 1 \<rparr>)"
    using t[of "''A''" "cardOf [True, True, True, False]" stats0] unfolding a by simp
  show ?thesis using h1 h2 a b c d by simp
qed

text \<open>
  Claim C2. A single-choice question that is unanswered: the first selection of a key makes
  it correct when the key is a correct key and incorrect otherwise, records the one-element
  list of that key, counts it, disables every input, and no later call changes anything.
\<close>

theorem single_first_selection_terminal:
  assumes "qtype q = SINGLE" and "status q = Unanswered"
  shows "handleInteraction q k c st =
           (q\<lparr> status := (if k \<in> set (correctKeys q) then Correct else Incorrect),
               userSelectedKeys := Some [k] \<rparr>,
            lockInputs c,
            (if k \<in> set (correctKeys q) then st\<lparr> correct := correct st + 1 \<rparr>
             else st\<lparr> incorrect := incorrect st + 1 \<rparr>))
       \<and> (\<forall>k' c' st'. handleInteraction (fst (handleInteraction q k c st)) k' c' st'
              = (fst (handleInteraction q k c st), c', st'))
       \<and> (\<forall>i \<in> set (fst (snd (handleInteraction q k c st))). idisabled i)"
  using assms by (auto simp: handleInteraction_def lockInputs_def)

theorem single_first_selection_terminal_witness:
  "qtype question1 = SINGLE \<and> status question1 = Unanswered
   \<and> handleInteraction question1 ''C'' (cardOf [False, False, True, False]) stats0
       = (question1\<lparr> status := Incorrect, userSelectedKeys := Some [''C''] \<rparr>,
          lockInputs (cardOf [False, False, True, False]),
          stats0\<lparr> incorrect := 1 \<rparr>)
   \<and> handleInteraction
         (fst (handleInteraction question1 ''C'' (cardOf [False, False, True, False]) stats0))
         ''B'' (cardOf [False, True, False, False]) stats0
       = (fst (handleInteraction question1 ''C'' (cardOf [False, False, True, False]) stats0),
          cardOf [False, True, False, False], stats0)"
proof -
  have h1: "qtype question1 = SINGLE" and h2: "status question1 = Unanswered"
    by (simp_all add: question1_def)
  have ck: "correctKeys question1 = [''B'']" by (simp add: question1_def)
  have i0: "incorrect stats0 = 0" by (simp add: stats0_def)
  note t = single_first_selection_terminal[OF h1 h2, of "''C''" "cardOf [False, False, True, False]" stats0]
  from t have a: "handleInteraction question1 ''C'' (cardOf [False, False, True, False]) stats0
       = (question1\<lparr> status := Incorrect, userSelectedKeys := Some [''C''] \<rparr>,
          lockInputs (cardOf [False, False, True, False]),
          stats0\<lparr> incorrect := 1 \<rparr>)"
    by (simp add: ck i0)
  from t have b: "handleInteraction
         (fst (handleInteraction question1 ''C'' (cardOf [False, False, True, False]) stats0))
         ''B'' (cardOf [False, True, False, False]) stats0
       = (fst (handleInteraction question1 ''C'' (cardOf [False, False, True, False]) stats0),
          cardOf [False, True, False, False], stats0)"
    by blast
  show ?thesis using h1 h2 a b by simp
qed

lemma terminalCount_update:
  "i < length qs \<Longrightarrow>
   terminalCount (qs[i := q']) + (if status (qs ! i) = Correct \<or> status (qs ! i) = Incorrect then 1 else 0)
     = terminalCount qs + (if status q' = Correct \<or> status q' = Incorrect then 1 else 0)"
proof (induction qs arbitrary: i)
  case Nil
  then show ?case by simp
next
  case (Cons a qs)
  show ?case
  proof (cases i)
    case 0
    then show ?thesis by (simp add: terminalCount_def)
  next
    case (Suc j)
    with Cons.prems have "j < length qs" by simp
    from Cons.IH[OF this] show ?thesis using Suc by (auto simp: terminalCount_def split: if_splits)
  qed
qed

lemma handleInteraction_counts:
  assumes "handleInteraction q k c st = (q', c', st')"
  shows "correct st \<le> correct st' \<and> incorrect st \<le> incorrect st'
       \<and> total st' = total st
       \<and> correct st' + incorrect st' + (if status q = Correct \<or> status q = Incorrect then 1 else 0)
           = correct st + incorrect st + (if status q' = Correct \<or> status q' = Incorrect then 1 else 0)
       \<and> (status q = Correct \<or> status q = Incorrect \<longrightarrow> q' = q)"
  using assms by (auto simp: handleInteraction_def Let_def split: if_splits)

lemma dispatch_counts:
  assumes "dispatch (qs, st) e = (qs', st')"
  shows "length qs' = length qs
       \<and> correct st \<le> correct st' \<and> incorrect st \<le> incorrect st'
       \<and> total st' = total st
       \<and> correct st' + incorrect st' + terminalCount qs = correct st + incorrect st + terminalCount qs'
       \<and> (\<forall>i < length qs. status (qs ! i) = Correct \<or> status (qs ! i) = Incorrect \<longrightarrow> qs' ! i = qs ! i)"
proof -
  obtain i k c where e: "e = (i, k, c)" by (cases e) auto
  show ?thesis
  proof (cases "i < length qs")
    case False
    with assms e show ?thesis by (simp add: dispatch_def)
  next
    case True
    obtain q' c' st1 where h: "handleInteraction (qs ! i) k c st = (q', c', st1)"
      by (cases "handleInteraction (qs ! i) k c st") auto
    with assms e True have r: "qs' = qs[i := q']" "st' = st1"
      by (auto simp: dispatch_def)
    note hc = handleInteraction_counts[OF h]
    note au = terminalCount_update[OF True, of q']
    have "\<forall>j < length qs. status (qs ! j) = Correct \<or> status (qs ! j) = Incorrect \<longrightarrow> qs' ! j = qs ! j"
    proof (intro allI impI)
      fix j assume j: "j < length qs"
        and l: "status (qs ! j) = Correct \<or> status (qs ! j) = Incorrect"
      show "qs' ! j = qs ! j"
      proof (cases "j = i")
        case True
        from hc have "status (qs ! i) = Correct \<or> status (qs ! i) = Incorrect \<longrightarrow> q' = qs ! i"
          by (elim conjE)
        with l True have "q' = qs ! i" by blast
        with True r j show ?thesis by simp
      next
        case False
        with r show ?thesis by simp
      qed
    qed
    moreover have "correct st' + incorrect st' + terminalCount qs = correct st + incorrect st + terminalCount qs'"
      using hc au r by (auto split: if_splits)
    ultimately show ?thesis using hc r by simp
  qed
qed

lemma session_counts:
  "session (qs, st) es = (qs', st') \<Longrightarrow>
     length qs' = length qs
       \<and> correct st \<le> correct st' \<and> incorrect st \<le> incorrect st'
       \<and> total st' = total st
       \<and> correct st' + incorrect st' + terminalCount qs = correct st + incorrect st + terminalCount qs'
       \<and> (\<forall>i < length qs. status (qs ! i) = Correct \<or> status (qs ! i) = Incorrect \<longrightarrow> qs' ! i = qs ! i)"
proof (induction es arbitrary: qs st)
  case Nil
  then show ?case by (simp add: session_def)
next
  case (Cons e es)
  obtain qs1 st1 where d: "dispatch (qs, st) e = (qs1, st1)"
    by (cases "dispatch (qs, st) e") auto
  with Cons.prems have "session (qs1, st1) es = (qs', st')" by (simp add: session_def)
  note ih = Cons.IH[OF this]
  note dc = dispatch_counts[OF d]
  show ?case using ih dc by auto
qed

text \<open>
  Claim C3. A call on a question whose status is correct or incorrect changes neither the
  question nor the counters. Over any sequence of events on any questions, a question that
  was terminal stays as it was, no counter decreases, and the counters grow by exactly the
  number of questions that became terminal, which is at most the number of questions: each
  question is counted at most once.
\<close>

theorem terminal_locked_counted_once:
  "(status q = Correct \<or> status q = Incorrect \<longrightarrow> handleInteraction q k c s = (q, c, s))
   \<and> (session (qs, st) es = (qs', st') \<longrightarrow>
        length qs' = length qs
        \<and> (\<forall>i < length qs. status (qs ! i) = Correct \<or> status (qs ! i) = Incorrect
               \<longrightarrow> qs' ! i = qs ! i)
        \<and> correct st \<le> correct st' \<and> incorrect st \<le> incorrect st'
        \<and> correct st' + incorrect st' + terminalCount qs = correct st + incorrect st + terminalCount qs'
        \<and> terminalCount qs' \<le> length qs)"
proof (intro conjI impI)
  assume "status q = Correct \<or> status q = Incorrect"
  then show "handleInteraction q k c s = (q, c, s)" by (rule handleInteraction_locked)
next
  assume s: "session (qs, st) es = (qs', st')"
  note sc = session_counts[OF s]
  show "length qs' = length qs" using sc by simp
  show "\<forall>i < length qs. status (qs ! i) = Correct \<or> status (qs ! i) = Incorrect
               \<longrightarrow> qs' ! i = qs ! i" using sc by (elim conjE)
  show "correct st \<le> correct st'" using sc by simp
  show "incorrect st \<le> incorrect st'" using sc by simp
  show "correct st' + incorrect st' + terminalCount qs = correct st + incorrect st + terminalCount qs'"
    using sc by (elim conjE)
  have "terminalCount qs' \<le> length qs'" by (simp add: terminalCount_def)
  then show "terminalCount qs' \<le> length qs" using sc by simp
qed

theorem terminal_locked_counted_once_witness:
  "session ([question1, question2], stats0)
       [(0, ''C'', cardOf [False, False, True, False]),
        (0, ''B'', cardOf [False, True, False, False]),
        (1, ''B'', cardOf [False, True, False, False])]
     = ([question1\<lparr> status := Incorrect, userSelectedKeys := Some [''C''] \<rparr>, question2],
        stats0\<lparr> incorrect := 1 \<rparr>)
   \<and> terminalCount [question1, question2] = 0
   \<and> terminalCount
         [question1\<lparr> status := Incorrect, userSelectedKeys := Some [''C''] \<rparr>, question2] = 1
   \<and> correct (stats0\<lparr> incorrect := 1 \<rparr>) + incorrect (stats0\<lparr> incorrect := 1 \<rparr>)
         + terminalCount [question1, question2]
       = correct stats0 + incorrect stats0
         + terminalCount
             [question1\<lparr> status := Incorrect, userSelectedKeys := Some [''C''] \<rparr>, question2]
   \<and> handleInteraction (question1\<lparr> status := Incorrect, userSelectedKeys := Some [''C''] \<rparr>)
         ''B'' (cardOf [False, True, False, False]) (stats0\<lparr> incorrect := 1 \<rparr>)
       = (question1\<lparr> status := Incorrect, userSelectedKeys := Some [''C''] \<rparr>,
          cardOf [False, True, False, False], stats0\<lparr> incorrect := 1 \<rparr>)"
proof -
  let ?q1 = "question1\<lparr> status := Incorrect, userSelectedKeys := Some [''C''] \<rparr>"
  let ?st = "stats0\<lparr> incorrect := 1 \<rparr>"
  let ?es = "[(0, ''C'', cardOf [False, False, True, False]),
        (0, ''B'', cardOf [False, True, False, False]),
        (1::nat, ''B'', cardOf [False, True, False, False])]"
  have s: "session ([question1, question2], stats0) ?es = ([?q1, question2], ?st)"
    by (simp add: session_def dispatch_def handleInteraction_def question1_def question2_def
          stats0_def cardOf_checked Let_def)
  have l: "status ?q1 = Correct \<or> status ?q1 = Incorrect" by simp
  note t = terminal_locked_counted_once[where q = ?q1 and k = "''B''"
      and c = "cardOf [False, True, False, False]" and s = ?st
      and qs = "[question1, question2]" and st = stats0 and es = ?es
      and qs' = "[?q1, question2]" and st' = ?st]
  have a0: "terminalCount [question1, question2] = 0"
    by (simp add: terminalCount_def question1_def question2_def)
  have a1: "terminalCount [?q1, question2] = 1"
    by (simp add: terminalCount_def question2_def)
  from t l have i: "handleInteraction ?q1 ''B'' (cardOf [False, True, False, False]) ?st
       = (?q1, cardOf [False, True, False, False], ?st)"
    by blast
  from t s have c: "correct ?st + incorrect ?st + terminalCount [question1, question2]
       = correct stats0 + incorrect stats0 + terminalCount [?q1, question2]"
    by blast
  show ?thesis using s a0 a1 c i by blast
qed

section \<open>Matching\<close>

text \<open>
  Claim C4. Matching is by equality of ids: when no entry of the answer map has the id of
  the question, the question becomes ungraded with no correct keys and the placeholder
  explanation; when an entry has it, the question takes the entry's correct keys and
  explanation and becomes unanswered. The keys of a Map are distinct.
\<close>

theorem exact_id_matching:
  assumes "distinct (map fst m)"
  shows "(qid q \<notin> fst ` set m \<longrightarrow>
            status (processQuestion m q) = Ungraded
          \<and> correctKeys (processQuestion m q) = []
          \<and> explanation (processQuestion m q) = ''No answer key found.'')
       \<and> ((qid q, a) \<in> set m \<longrightarrow>
            correctKeys (processQuestion m q) = acorrectKeys a
          \<and> explanation (processQuestion m q) = aexplanation a
          \<and> status (processQuestion m q) = Unanswered)"
proof (intro conjI impI)
  assume "qid q \<notin> fst ` set m"
  then have n: "map_get m (qid q) = None" by (simp add: map_get_def map_of_eq_None_iff)
  show "status (processQuestion m q) = Ungraded" using n by (simp add: processQuestion_def)
  show "correctKeys (processQuestion m q) = []" using n by (simp add: processQuestion_def)
  show "explanation (processQuestion m q) = ''No answer key found.''"
    using n by (simp add: processQuestion_def)
next
  assume "(qid q, a) \<in> set m"
  with assms have s: "map_get m (qid q) = Some a" by (simp add: map_get_def)
  show "correctKeys (processQuestion m q) = acorrectKeys a" using s by (simp add: processQuestion_def)
  show "explanation (processQuestion m q) = aexplanation a" using s by (simp add: processQuestion_def)
  show "status (processQuestion m q) = Unanswered" using s by (simp add: processQuestion_def)
qed

theorem exact_id_matching_witness:
  "distinct (map fst [(''07'', answerB)]) \<and> qid question7 \<notin> fst ` set [(''07'', answerB)]
   \<and> status (processQuestion [(''07'', answerB)] question7) = Ungraded
   \<and> correctKeys (processQuestion [(''07'', answerB)] question7) = []
   \<and> explanation (processQuestion [(''07'', answerB)] question7) = ''No answer key found.''
   \<and> distinct (map fst [(''07'', answerB), (''7'', answerB)])
   \<and> (qid question7, answerB) \<in> set [(''07'', answerB), (''7'', answerB)]
   \<and> correctKeys (processQuestion [(''07'', answerB), (''7'', answerB)] question7) = [''B'']
   \<and> explanation (processQuestion [(''07'', answerB), (''7'', answerB)] question7) = ''because''
   \<and> status (processQuestion [(''07'', answerB), (''7'', answerB)] question7) = Unanswered"
proof -
  have d1: "distinct (map fst [(''07'', answerB)])" by simp
  have d2: "distinct (map fst [(''07'', answerB), (''7'', answerB)])" by simp
  have n: "qid question7 \<notin> fst ` set [(''07'', answerB)]" by (simp add: question7_def)
  have e: "(qid question7, answerB) \<in> set [(''07'', answerB), (''7'', answerB)]"
    by (simp add: question7_def)
  have b: "acorrectKeys answerB = [''B'']" "aexplanation answerB = ''because''"
    by (simp_all add: answerB_def)
  from exact_id_matching[OF d1, of question7 answerB] n
  have u: "status (processQuestion [(''07'', answerB)] question7) = Ungraded
   \<and> correctKeys (processQuestion [(''07'', answerB)] question7) = []
   \<and> explanation (processQuestion [(''07'', answerB)] question7) = ''No answer key found.''"
    by blast
  from exact_id_matching[OF d2, of question7 answerB] e
  have "correctKeys (processQuestion [(''07'', answerB), (''7'', answerB)] question7) = acorrectKeys answerB
   \<and> explanation (processQuestion [(''07'', answerB), (''7'', answerB)] question7) = aexplanation answerB
   \<and> status (processQuestion [(''07'', answerB), (''7'', answerB)] question7) = Unanswered"
    by blast
  with d1 d2 n e u b show ?thesis by simp
qed

text \<open>
  Claim C5. After matching, the type is the explicit type when there is one; otherwise it is
  MULTIPLE exactly when there is more than one correct key, and SINGLE otherwise. An explicit
  SINGLE stays SINGLE whatever the number of correct keys, and an unmatched question without
  a tag has no correct keys and is SINGLE.
\<close>

theorem type_resolution:
  "qtype (processQuestion m q) =
     (case explicitType q of
        Some t \<Rightarrow> t
      | None \<Rightarrow> if length (correctKeys (processQuestion m q)) > 1 then MULTIPLE else SINGLE)
   \<and> (explicitType q = Some SINGLE \<longrightarrow> qtype (processQuestion m q) = SINGLE)
   \<and> (explicitType q = None \<and> map_get m (qid q) = None \<longrightarrow>
        correctKeys (processQuestion m q) = [] \<and> qtype (processQuestion m q) = SINGLE)"
  by (auto simp: processQuestion_def Let_def split: option.splits)

theorem type_resolution_witness:
  "qtype (processQuestion [(''7'', answerB\<lparr> acorrectKeys := [''A'', ''C''] \<rparr>)]
            (question7\<lparr> explicitType := Some SINGLE \<rparr>)) = SINGLE
   \<and> qtype (processQuestion [(''7'', answerB\<lparr> acorrectKeys := [''A'', ''C''] \<rparr>)] question7)
       = MULTIPLE
   \<and> explicitType question7 = None \<and> map_get [(''07'', answerB)] (qid question7) = None
   \<and> correctKeys (processQuestion [(''07'', answerB)] question7) = []
   \<and> qtype (processQuestion [(''07'', answerB)] question7) = SINGLE"
proof -
  let ?m = "[(''7'', answerB\<lparr> acorrectKeys := [''A'', ''C''] \<rparr>)]"
  have x: "explicitType (question7\<lparr> explicitType := Some SINGLE \<rparr>) = Some SINGLE" by simp
  have y: "explicitType question7 = None" by (simp add: question7_def)
  have z: "map_get [(''07'', answerB)] (qid question7) = None"
    by (simp add: map_get_def question7_def)
  have k: "correctKeys (processQuestion ?m question7) = [''A'', ''C'']"
    by (simp add: processQuestion_def map_get_def question7_def)
  from type_resolution[of ?m "question7\<lparr> explicitType := Some SINGLE \<rparr>"] x
  have a: "qtype (processQuestion ?m (question7\<lparr> explicitType := Some SINGLE \<rparr>)) = SINGLE"
    by blast
  from type_resolution[of ?m question7] y k
  have b: "qtype (processQuestion ?m question7) = MULTIPLE" by simp
  from type_resolution[of "[(''07'', answerB)]" question7] y z
  have c: "correctKeys (processQuestion [(''07'', answerB)] question7) = []
         \<and> qtype (processQuestion [(''07'', answerB)] question7) = SINGLE"
    by blast
  show ?thesis using a b c y z by simp
qed

lemma handleInteraction_no_keys:
  assumes "correctKeys q = []" and "status q \<noteq> Correct"
  shows "correctKeys (fst (handleInteraction q k c st)) = []
       \<and> status (fst (handleInteraction q k c st)) = Incorrect"
  using assms by (auto simp: handleInteraction_def Let_def)

lemma interact_no_keys:
  "correctKeys q = [] \<Longrightarrow> status q \<noteq> Correct \<Longrightarrow> status (fst (interact (q, st) es)) \<noteq> Correct"
proof (induction es arbitrary: q st)
  case Nil
  then show ?case by simp
next
  case (Cons e es)
  obtain k c where e: "e = (k, c)" by (cases e) auto
  obtain q' c' st' where h: "handleInteraction q k c st = (q', c', st')"
    by (cases "handleInteraction q k c st") auto
  from handleInteraction_no_keys[OF Cons.prems, of k c st] h
  have "correctKeys q' = []" "status q' \<noteq> Correct" by simp_all
  from Cons.IH[OF this] show ?case using e h by simp
qed

lemma processQuestion_ungraded:
  "status (processQuestion m pq) = Ungraded \<Longrightarrow> correctKeys (processQuestion m pq) = []"
  by (auto simp: processQuestion_def Let_def split: option.splits)

text \<open>
  Claim C6. A question that matching left ungraded has no correct keys; whatever the
  sequence of selections on it, its status never becomes correct, and a selection on it
  makes it incorrect and is counted as incorrect.
\<close>

theorem ungraded_never_correct:
  assumes "q = processQuestion m pq" and "status q = Ungraded"
  shows "correctKeys q = []
       \<and> status (fst (interact (q, st) es)) \<noteq> Correct
       \<and> status (fst (handleInteraction q k c st)) = Incorrect
       \<and> snd (snd (handleInteraction q k c st)) = st\<lparr> incorrect := incorrect st + 1 \<rparr>"
proof -
  from assms have ck: "correctKeys q = []" using processQuestion_ungraded by simp
  from assms have nc: "status q \<noteq> Correct" by simp
  have "snd (snd (handleInteraction q k c st)) = st\<lparr> incorrect := incorrect st + 1 \<rparr>"
    using ck assms(2) by (simp add: handleInteraction_def Let_def)
  then show ?thesis
    using ck interact_no_keys[OF ck nc] handleInteraction_no_keys[OF ck nc] by simp
qed

theorem ungraded_never_correct_witness:
  "status (processQuestion [(''07'', answerB)] question7) = Ungraded
   \<and> correctKeys (processQuestion [(''07'', answerB)] question7) = []
   \<and> status (fst (interact (processQuestion [(''07'', answerB)] question7, stats0)
         [(''B'', cardOf [False, True, False, False]), (''A'', cardOf [True, True, False, False])]))
       \<noteq> Correct
   \<and> status (fst (handleInteraction (processQuestion [(''07'', answerB)] question7) ''B''
         (cardOf [False, True, False, False]) stats0)) = Incorrect"
proof -
  let ?q = "processQuestion [(''07'', answerB)] question7"
  have u: "status ?q = Ungraded"
    by (simp add: processQuestion_def map_get_def question7_def)
  from ungraded_never_correct[OF refl u, of stats0
      "[(''B'', cardOf [False, True, False, False]), (''A'', cardOf [True, True, False, False])]"
      "''B''" "cardOf [False, True, False, False]"] u
  show ?thesis by simp
qed

lemma renderQuestion_AD:
  assumes "map key (choices q) = [''A'', ''B'', ''C'', ''D'']"
  shows "renderQuestion q =
      [\<lparr> ivalue = ''A'', ichecked = False, idisabled = False \<rparr>,
       \<lparr> ivalue = ''B'', ichecked = False, idisabled = False \<rparr>,
       \<lparr> ivalue = ''C'', ichecked = False, idisabled = False \<rparr>,
       \<lparr> ivalue = ''D'', ichecked = False, idisabled = False \<rparr>]"
proof -
  have "map ivalue (renderQuestion q) = map key (choices q)"
    by (simp add: renderQuestion_def comp_def)
  moreover have "\<forall>i \<in> set (renderQuestion q). \<not> ichecked i \<and> \<not> idisabled i"
    by (auto simp: renderQuestion_def)
  ultimately show ?thesis using assms
    by (cases "renderQuestion q" rule: list.exhaust) (auto simp: Cons_eq_map_conv)
qed

text \<open>
  Claim C7, as the code has it. For a multiple-choice question with the choices A to D and
  the correct keys B, C and D: selecting B and then C changes neither the question nor the
  counters, and selecting A then makes the question incorrect. The keys recorded are the
  checked ones in the order of the choices on the card, A, B, C, not in the order of
  selection.
\<close>

theorem progressive_reveal_scenario:
  assumes "map key (choices q) = [''A'', ''B'', ''C'', ''D'']"
    and "correctKeys q = [''B'', ''C'', ''D'']"
    and "qtype q = MULTIPLE" and "status q = Unanswered"
  shows "selectChoice 1 (q, renderQuestion q, st) = (q, toggleInput 1 (renderQuestion q), st)
       \<and> selectChoice 2 (selectChoice 1 (q, renderQuestion q, st))
           = (q, toggleInput 2 (toggleInput 1 (renderQuestion q)), st)
       \<and> fst (selectChoice 0 (selectChoice 2 (selectChoice 1 (q, renderQuestion q, st))))
           = q\<lparr> status := Incorrect, userSelectedKeys := Some [''A'', ''B'', ''C''] \<rparr>"
  using assms(2-4) unfolding renderQuestion_AD[OF assms(1)]
  by (simp add: selectChoice_def toggleInput_def handleInteraction_def checkedKeys_def Let_def)

theorem progressive_reveal_scenario_witness:
  "map key (choices question2) = [''A'', ''B'', ''C'', ''D'']
   \<and> correctKeys question2 = [''B'', ''C'', ''D'']
   \<and> qtype question2 = MULTIPLE \<and> status question2 = Unanswered
   \<and> fst (selectChoice 1 (question2, renderQuestion question2, stats0)) = question2
   \<and> fst (selectChoice 2 (selectChoice 1 (question2, renderQuestion question2, stats0)))
       = question2
   \<and> fst (selectChoice 0 (selectChoice 2 (selectChoice 1
         (question2, renderQuestion question2, stats0))))
       = question2\<lparr> status := Incorrect, userSelectedKeys := Some [''A'', ''B'', ''C''] \<rparr>"
proof -
  have h1: "map key (choices question2) = [''A'', ''B'', ''C'', ''D'']"
    by (simp add: question2_def choicesAD_def)
  have h2: "correctKeys question2 = [''B'', ''C'', ''D'']"
    and h3: "qtype question2 = MULTIPLE" and h4: "status question2 = Unanswered"
    by (simp_all add: question2_def)
  note t = progressive_reveal_scenario[OF h1 h2 h3 h4, of stats0]
  from t have "selectChoice 1 (question2, renderQuestion question2, stats0)
      = (question2, toggleInput 1 (renderQuestion question2), stats0)"
    by blast
  then have a: "fst (selectChoice 1 (question2, renderQuestion question2, stats0)) = question2"
    by simp
  from t have "selectChoice 2 (selectChoice 1 (question2, renderQuestion question2, stats0))
      = (question2, toggleInput 2 (toggleInput 1 (renderQuestion question2)), stats0)"
    by blast
  then have b: "fst (selectChoice 2 (selectChoice 1 (question2, renderQuestion question2, stats0)))
      = question2"
    by simp
  from t have c: "fst (selectChoice 0 (selectChoice 2 (selectChoice 1
         (question2, renderQuestion question2, stats0))))
       = question2\<lparr> status := Incorrect, userSelectedKeys := Some [''A'', ''B'', ''C''] \<rparr>"
    by blast
  show ?thesis using h1 h2 h3 h4 a b c by blast
qed

text \<open>
  The claim as written fails: with the choices A to D on the card, the keys recorded after
  selecting B, C and A are not B, C, A.
\<close>

theorem selection_order_counterexample:
  "userSelectedKeys (fst (selectChoice 0 (selectChoice 2 (selectChoice 1
       (question2, renderQuestion question2, stats0)))))
     \<noteq> Some [''B'', ''C'', ''A'']"
  by (simp add: question2_def choicesAD_def renderQuestion_def selectChoice_def toggleInput_def
        handleInteraction_def checkedKeys_def Let_def)

section \<open>The parsers\<close>














lemma setAll_simps [simp]:
  "setAll m [] = m"
  "setAll m (b # bs) = setAll (map_set m (aid b) b) bs"
  by (simp_all add: setAll_def)

lemma aStartRegex_Nil: "aStartRegex [] = None"
  by (simp add: aStartRegex_def)

lemma answerLine_open:
  "answerLine (m, Some a) raw =
     (if trim raw = [] then (m, Some a)
      else case aStartRegex (trim raw) of
        Some (d, ks) \<Rightarrow>
          (map_set m (aid a) a,
           Some \<lparr> aid = d, acorrectKeys = map (\<lambda>k. toUpperCase (trim k)) (splitComma ks),
                  aexplanation = [] \<rparr>)
      | None \<Rightarrow>
          (case expStartRegex (trim raw) of
             Some e \<Rightarrow> (m, Some (a\<lparr> aexplanation := e \<rparr>))
           | None \<Rightarrow>
               (m, Some (a\<lparr> aexplanation :=
                            aexplanation a @ (if aexplanation a \<noteq> [] then [LF] else [])
                              @ trim raw \<rparr>))))"
  unfolding answerLine_def by (simp add: Let_def split: option.splits)

lemma answerLine_closed:
  "answerLine (m, None) raw =
     (case aStartRegex (trim raw) of
        Some (d, ks) \<Rightarrow>
          (m, Some \<lparr> aid = d, acorrectKeys = map (\<lambda>k. toUpperCase (trim k)) (splitComma ks),
                     aexplanation = [] \<rparr>)
      | None \<Rightarrow> (m, None))"
  unfolding answerLine_def by (simp add: Let_def aStartRegex_Nil split: option.splits)

lemma open_block:
  "flushAnswer (foldl answerLine (m, Some a) ls) = setAll m (blockLines a ls)"
proof (induction ls arbitrary: m a)
  case Nil
  show ?case by (simp add: flushAnswer_def)
next
  case (Cons raw ls)
  show ?case
    by (simp add: answerLine_open Let_def Cons.IH split: option.splits)
qed

lemma no_block:
  "flushAnswer (foldl answerLine (m, None) ls) = setAll m (answerBlocksOf ls)"
proof (induction ls arbitrary: m)
  case Nil
  show ?case by (simp add: flushAnswer_def)
next
  case (Cons raw ls)
  show ?case
    by (simp add: answerLine_closed Cons.IH open_block split: option.splits)
qed

lemma parseAnswersText_blocks: "parseAnswersText txt = setAll [] (answerBlocks txt)"
  using no_block[of "[]" "splitLines txt"]
  by (simp add: parseAnswersText_def answerBlocks_def flushAnswer_def)

lemma setAll_distinct: "distinct (map fst m) \<Longrightarrow> distinct (map fst (setAll m bs))"
  by (induction bs arbitrary: m) (simp_all add: map_set_def distinct_update)

lemma find_app:
  "find P (xs @ ys) = (case find P xs of None \<Rightarrow> find P ys | Some x \<Rightarrow> Some x)"
  by (induction xs) simp_all

lemma setAll_get:
  "map_of (setAll m bs) i =
     (case find (\<lambda>a. aid a = i) (rev bs) of Some a \<Rightarrow> Some a | None \<Rightarrow> map_of m i)"
proof (induction bs arbitrary: m)
  case Nil
  show ?case by simp
next
  case (Cons b bs)
  show ?case
    by (simp add: Cons.IH find_app map_set_def update_conv' split: option.splits)
qed

lemma setAll_keys: "fst ` set (setAll m bs) = fst ` set m \<union> aid ` set bs"
proof (induction bs arbitrary: m)
  case Nil
  show ?case by simp
next
  case (Cons b bs)
  have "fst ` set (map_set m (aid b) b) = insert (aid b) (fst ` set m)"
    using dom_update[of "aid b" b m] by (simp add: map_set_def dom_map_of_conv_image_fst)
  then show ?case by (simp add: Cons.IH)
qed

lemma one_entry:
  assumes "distinct (map fst m)" and "i \<in> fst ` set m"
  shows "length (filter (\<lambda>e. fst e = i) m) = 1"
proof -
  have "length (filter (\<lambda>e. fst e = i) m) = length (filter (\<lambda>k. k = i) (map fst m))"
    by (simp add: filter_map comp_def)
  also have "\<dots> = card ({k. k = i} \<inter> set (map fst m))"
    using assms(1) by (rule distinct_length_filter)
  also have "{k. k = i} \<inter> set (map fst m) = {i}" using assms(2) by auto
  finally show ?thesis by simp
qed

text \<open>
  Claim C9. The keys of the map that the answer parser returns are distinct; looking an id
  up gives the last block of the text with that id (no block: undefined); and an id that
  occurs in one or more blocks has exactly one entry.
\<close>

theorem answers_last_write_wins:
  "distinct (map fst (parseAnswersText txt))
   \<and> (\<forall>i. map_get (parseAnswersText txt) i = find (\<lambda>a. aid a = i) (rev (answerBlocks txt)))
   \<and> (\<forall>i. i \<in> aid ` set (answerBlocks txt) \<longrightarrow>
          length (filter (\<lambda>e. fst e = i) (parseAnswersText txt)) = 1)"
proof (intro conjI allI impI)
  show d: "distinct (map fst (parseAnswersText txt))"
    unfolding parseAnswersText_blocks by (rule setAll_distinct) simp
  fix i
  show "map_get (parseAnswersText txt) i = find (\<lambda>a. aid a = i) (rev (answerBlocks txt))"
    unfolding parseAnswersText_blocks map_get_def setAll_get by (simp split: option.splits)
  assume "i \<in> aid ` set (answerBlocks txt)"
  then have "i \<in> fst ` set (parseAnswersText txt)"
    unfolding parseAnswersText_blocks setAll_keys by simp
  with d show "length (filter (\<lambda>e. fst e = i) (parseAnswersText txt)) = 1" by (rule one_entry)
qed

lemma answersText_blocks:
  "answerBlocks answersText =
     [\<lparr> aid = ''1'', acorrectKeys = [''B''], aexplanation = ''first'' \<rparr>,
      \<lparr> aid = ''2'', acorrectKeys = [''A'', ''C''], aexplanation = [] \<rparr>,
      \<lparr> aid = ''1'', acorrectKeys = [''D''], aexplanation = ''last'' \<rparr>]"
  by code_simp

theorem answers_last_write_wins_witness:
  "''1'' \<in> aid ` set (answerBlocks answersText)
   \<and> length (filter (\<lambda>a. aid a = ''1'') (answerBlocks answersText)) = 2
   \<and> distinct (map fst (parseAnswersText answersText))
   \<and> map_get (parseAnswersText answersText) ''1''
        = Some \<lparr> aid = ''1'', acorrectKeys = [''D''], aexplanation = ''last'' \<rparr>
   \<and> length (filter (\<lambda>e. fst e = ''1'') (parseAnswersText answersText)) = 1"
  using answers_last_write_wins[of answersText]
  by (simp add: answersText_blocks)

section \<open>The percentage\<close>

lemma bitlen_pos: "0 < m \<Longrightarrow> 1 \<le> bitlen m"
  using bitlen_eq_zero_iff[of m] bitlen_nonneg[of m] by linarith

lemma two_powi_nat: "0 \<le> k \<Longrightarrow> (2::rat) powi k = 2 ^ nat k"
  by (simp add: power_int_def)

lemma two_powi_neg: "0 \<le> k \<Longrightarrow> (2::rat) powi (- k) = 1 / 2 ^ nat k"
  by (simp add: power_int_minus two_powi_nat field_simps)

lemma binExp_bounds:
  assumes "0 < x"
  shows "2 powi binExp x \<le> x \<and> x < 2 powi (binExp x + 1)"
proof (cases "1 \<le> x")
  case True
  define m where "m = \<lfloor>x\<rfloor>"
  define b where "b = bitlen m"
  have m1: "1 \<le> m" using True by (simp add: m_def)
  then have b1: "1 \<le> b" unfolding b_def by (intro bitlen_pos) simp
  have bb: "2 ^ nat (b - 1) \<le> m" "m < 2 ^ nat b"
    using bitlen_bounds[of m] m1 by (simp_all add: b_def)
  have e: "binExp x = b - 1" using True by (simp add: binExp_def m_def b_def)
  have "(2::rat) powi (b - 1) = of_int (2 ^ nat (b - 1))" using b1 by (simp add: two_powi_nat)
  also have "\<dots> \<le> of_int m" using bb(1) by (simp only: of_int_le_iff)
  also have "\<dots> \<le> x" by (simp add: m_def)
  finally have lo: "2 powi (b - 1) \<le> x" .
  have "x < of_int (m + 1)" unfolding m_def by linarith
  also have "\<dots> \<le> of_int (2 ^ nat b)"
  proof -
    have "m + 1 \<le> 2 ^ nat b" using bb(2) by simp
    then show ?thesis by (simp only: of_int_le_iff)
  qed
  also have "\<dots> = (2::rat) powi b" using b1 by (simp add: two_powi_nat)
  finally have hi: "x < 2 powi b" .
  show ?thesis using lo hi e by simp
next
  case False
  then have x1: "x < 1" by simp
  define z where "z = 1 / x"
  define m where "m = \<lceil>z\<rceil>"
  define b where "b = bitlen (m - 1)"
  have z1: "1 < z" using assms x1 by (simp add: z_def)
  have zpos: "0 < z" using z1 by simp
  have m2: "2 \<le> m" using z1 unfolding m_def by linarith
  then have b1: "1 \<le> b" unfolding b_def by (intro bitlen_pos) simp
  have bb: "2 ^ nat (b - 1) \<le> m - 1" "m - 1 < 2 ^ nat b"
    using bitlen_bounds[of "m - 1"] m2 by (simp_all add: b_def)
  have e: "binExp x = - b" using False by (simp add: binExp_def z_def m_def b_def)
  have xz: "x = 1 / z" using assms by (simp add: z_def)
  have "z \<le> of_int m" by (simp add: m_def)
  also have "\<dots> \<le> of_int (2 ^ nat b)"
  proof -
    have "m \<le> 2 ^ nat b" using bb(2) by simp
    then show ?thesis by (simp only: of_int_le_iff)
  qed
  finally have zhi: "z \<le> 2 ^ nat b" by simp
  have "(2::rat) powi (- b) = 1 / 2 ^ nat b" using b1 by (simp add: two_powi_neg)
  also have "\<dots> \<le> 1 / z" using zhi zpos by (simp add: frac_le)
  finally have lo: "2 powi (- b) \<le> x" using xz by simp
  have "(2::rat) ^ nat (b - 1) = of_int (2 ^ nat (b - 1))" by simp
  also have "\<dots> \<le> of_int (m - 1)" using bb(1) by (simp only: of_int_le_iff)
  also have "\<dots> < z" unfolding m_def by linarith
  finally have zlo: "2 ^ nat (b - 1) < z" .
  have "x = 1 / z" by (rule xz)
  also have "\<dots> < 1 / 2 ^ nat (b - 1)" using zlo by (simp add: frac_less2)
  also have "\<dots> = (2::rat) powi (- (b - 1))"
    using b1 two_powi_neg[of "b - 1"] by simp
  finally have hi: "x < 2 powi (- b + 1)" by simp
  show ?thesis using lo hi e by simp
qed

lemma binExp_unique:
  assumes "2 powi e \<le> x" and "x < 2 powi (e + 1)"
  shows "binExp x = e"
proof -
  have "0 < (2::rat) powi e" by simp
  with assms(1) have x0: "0 < x" by linarith
  note b = binExp_bounds[OF x0]
  have 1: "e < binExp x + 1"
  proof (rule ccontr)
    assume "\<not> e < binExp x + 1"
    then have "binExp x + 1 \<le> e" by simp
    then have "(2::rat) powi (binExp x + 1) \<le> 2 powi e"
      by (intro power_int_increasing) simp_all
    with assms(1) b show False by linarith
  qed
  have 2: "binExp x < e + 1"
  proof (rule ccontr)
    assume "\<not> binExp x < e + 1"
    then have "e + 1 \<le> binExp x" by simp
    then have "(2::rat) powi (e + 1) \<le> 2 powi binExp x"
      by (intro power_int_increasing) simp_all
    with assms(2) b show False by linarith
  qed
  from 1 2 show ?thesis by simp
qed

lemma roundHalfEven_near: "\<bar>of_int (roundHalfEven y) - y\<bar> \<le> 1 / 2"
proof -
  have "of_int \<lfloor>y\<rfloor> \<le> y" "y < of_int \<lfloor>y\<rfloor> + 1" by linarith+
  then show ?thesis by (auto simp: roundHalfEven_def Let_def)
qed

lemma roundHalfEven_eval:
  assumes "of_int n - 1 / 2 < y" and "y < of_int n + 1 / 2"
  shows "roundHalfEven y = n"
proof -
  have f: "of_int \<lfloor>y\<rfloor> \<le> y" "y < of_int \<lfloor>y\<rfloor> + 1" by linarith+
  have "\<lfloor>y\<rfloor> = n \<or> \<lfloor>y\<rfloor> = n - 1" using assms f by linarith
  then show ?thesis
  proof
    assume a: "\<lfloor>y\<rfloor> = n"
    with assms show ?thesis by (simp add: roundHalfEven_def Let_def)
  next
    assume a: "\<lfloor>y\<rfloor> = n - 1"
    with assms show ?thesis by (simp add: roundHalfEven_def Let_def)
  qed
qed

lemma roundDouble_error:
  assumes "0 < x"
  shows "\<bar>roundDouble x - x\<bar> \<le> x * 2 powi (- 53)"
proof -
  define u :: rat where "u = 2 powi (binExp x - 52)"
  have u0: "0 < u" by (simp add: u_def)
  have r: "roundDouble x = of_int (roundHalfEven (x / u)) * u"
    using assms by (simp add: roundDouble_def u_def Let_def)
  have "roundDouble x - x = (of_int (roundHalfEven (x / u)) - x / u) * u"
    using u0 by (simp add: r field_simps)
  then have "\<bar>roundDouble x - x\<bar> = \<bar>of_int (roundHalfEven (x / u)) - x / u\<bar> * u"
    using u0 by (simp add: abs_mult)
  also have "\<dots> \<le> 1 / 2 * u" using roundHalfEven_near[of "x / u"] u0
    by (intro mult_right_mono) simp_all
  also have "\<dots> = 2 powi binExp x * 2 powi (- 53)"
    by (simp add: u_def power_int_diff power_int_minus)
  also have "\<dots> \<le> x * 2 powi (- 53)" using binExp_bounds[OF assms]
    by (intro mult_right_mono) simp_all
  finally show ?thesis .
qed

lemma roundDouble_eval:
  assumes "2 powi e \<le> x" and "x < 2 powi (e + 1)"
    and "of_int n - 1 / 2 < x / 2 powi (e - 52)" and "x / 2 powi (e - 52) < of_int n + 1 / 2"
  shows "roundDouble x = of_int n * 2 powi (e - 52)"
proof -
  have "0 < (2::rat) powi e" by simp
  with assms(1) have x0: "x \<noteq> 0" by linarith
  have e: "binExp x = e" using assms(1,2) by (rule binExp_unique)
  have "roundHalfEven (x / 2 powi (e - 52)) = n" using assms(3,4) by (rule roundHalfEven_eval)
  then show ?thesis using x0 by (simp add: roundDouble_def e Let_def)
qed

lemma roundDouble_pos:
  assumes "0 < x"
  shows "0 < roundDouble x"
proof -
  have "(2::rat) powi (- 53) < 1" by (simp add: power_int_minus field_simps)
  then have "x * 2 powi (- 53) < x * 1" using assms by (intro mult_strict_left_mono)
  with roundDouble_error[OF assms] show ?thesis by linarith
qed

lemma product_error:
  assumes "0 < x" and "x \<le> 1"
  shows "\<bar>roundDouble (roundDouble x * 100) - x * 100\<bar> < 1 / 2 ^ 45"
proof -
  define eps :: rat where "eps = 2 powi (- 53)"
  have eps: "eps = 1 / 2 ^ 53" by (simp add: eps_def power_int_minus field_simps)
  define d where "d = roundDouble x"
  have d0: "0 < d" unfolding d_def using assms(1) by (rule roundDouble_pos)
  have e1: "\<bar>d - x\<bar> \<le> x * eps" unfolding d_def eps_def using assms(1) by (rule roundDouble_error)
  have "x * eps \<le> 1 * eps" using assms(2) by (intro mult_right_mono) (simp_all add: eps)
  with e1 have e1': "\<bar>d - x\<bar> \<le> eps" by simp
  then have dle: "d \<le> 1 + eps" using assms(2) by linarith
  have "0 < d * 100" using d0 by simp
  then have e2: "\<bar>roundDouble (d * 100) - d * 100\<bar> \<le> d * 100 * eps"
    unfolding eps_def by (rule roundDouble_error)
  have "d * 100 * eps \<le> (1 + eps) * 100 * eps"
    using dle by (intro mult_right_mono) (simp_all add: eps)
  with e2 have e2': "\<bar>roundDouble (d * 100) - d * 100\<bar> \<le> (1 + eps) * 100 * eps" by linarith
  have tri: "\<bar>p - r\<bar> \<le> \<bar>p - q\<bar> + \<bar>q - r\<bar>" for p q r :: rat by linarith
  have sc: "\<bar>d * 100 - x * 100\<bar> = 100 * \<bar>d - x\<bar>"
  proof -
    have "d * 100 - x * 100 = 100 * (d - x)" by simp
    then show ?thesis by (simp only: abs_mult; simp)
  qed
  have "\<bar>roundDouble (d * 100) - x * 100\<bar>
          \<le> \<bar>roundDouble (d * 100) - d * 100\<bar> + 100 * \<bar>d - x\<bar>"
    using tri[of "roundDouble (d * 100)" "x * 100" "d * 100"] unfolding sc .
  also have "\<dots> \<le> (1 + eps) * 100 * eps + 100 * eps"
  proof (rule add_mono)
    show "\<bar>roundDouble (d * 100) - d * 100\<bar> \<le> (1 + eps) * 100 * eps" by (rule e2')
    show "100 * \<bar>d - x\<bar> \<le> 100 * eps" using e1' by simp
  qed
  also have "\<dots> < 1 / 2 ^ 45" by (simp add: eps)
  finally show ?thesis by (simp add: d_def)
qed

lemma exact_percent:
  assumes "0 < a"
  shows "of_nat c / of_nat a * 100 + 1 / 2 = (of_nat (200 * c + a) :: rat) / of_nat (2 * a)"
  using assms by (simp add: field_simps)

lemma round_exact:
  assumes "0 < a"
  shows "round (of_nat c / of_nat a * 100 :: rat) = int ((200 * c + a) div (2 * a))"
proof -
  have "round (of_nat c / of_nat a * 100 :: rat) = \<lfloor>(of_nat (200 * c + a) :: rat) / of_nat (2 * a)\<rfloor>"
    unfolding round_def exact_percent[OF assms] ..
  also have "\<dots> = int ((200 * c + a) div (2 * a))"
    by (simp only: floor_divide_of_nat_eq)
  finally show ?thesis .
qed


lemma round_to_nearest:
  assumes a0: "0 < a" and a44: "a \<le> 2 ^ 44"
    and near: "\<bar>p - of_nat c / of_nat a * 100\<bar> < 1 / 2 ^ 45"
  shows "mathRound p =
           (if halfway c a \<and> p < of_nat c / of_nat a * 100
            then int ((200 * c + a) div (2 * a)) - 1
            else int ((200 * c + a) div (2 * a)))"
proof -
  define y :: rat where "y = of_nat c / of_nat a * 100"
  define q where "q = (200 * c + a) div (2 * a)"
  define r where "r = (200 * c + a) mod (2 * a)"
  define h :: rat where "h = 1 / of_nat (2 * a)"
  have N: "200 * c + a = q * (2 * a) + r"
    unfolding q_def r_def by (rule div_mult_mod_eq[symmetric])
  have r2: "r < 2 * a" using a0 by (simp add: r_def)
  have a2: "0 < (of_nat (2 * a) :: rat)" using a0 by simp
  have "y + 1 / 2 = (of_nat (200 * c + a) :: rat) / of_nat (2 * a)"
    unfolding y_def using a0 by (rule exact_percent)
  also have "\<dots> = (of_nat q * of_nat (2 * a) + of_nat r) / of_nat (2 * a)"
    by (simp only: N of_nat_add of_nat_mult)
  also have "\<dots> = of_nat q + of_nat r * h"
    using a2 by (simp add: h_def add_divide_distrib)
  finally have yh: "y + 1 / 2 = of_nat q + of_nat r * h" .
  have "(of_nat (2 * a) :: rat) \<le> of_nat (2 ^ 45)"
    using a44 by (simp only: of_nat_le_iff) simp
  then have "(of_nat (2 * a) :: rat) \<le> 2 ^ 45" by simp
  then have hlo: "1 / 2 ^ 45 \<le> h" unfolding h_def using a2 by (intro frac_le) simp_all
  have h1: "of_nat (2 * a) * h = 1" using a2 by (simp add: h_def)
  have h0: "0 < h" using a2 by (simp add: h_def)
  have pn: "y - 1 / 2 ^ 45 < p" "p < y + 1 / 2 ^ 45" using near unfolding y_def by linarith+
  have mr: "mathRound p = \<lfloor>p + 1 / 2\<rfloor>" by (simp add: mathRound_def)
  define t :: rat where "t = of_nat r * h"
  define dl :: rat where "dl = 1 / 2 ^ 45"
  define Q :: rat where "Q = of_int (int q)"
  have yt: "y + 1 / 2 = Q + t" using yh by (simp add: t_def Q_def)
  have pd: "y - dl < p" "p < y + dl" using pn by (simp_all add: dl_def)
  have dh: "dl \<le> h" using hlo by (simp add: dl_def)
  have d1: "dl < 1" by (simp add: dl_def)
  have "mathRound p = (if halfway c a \<and> p < y then int q - 1 else int q)"
  proof (cases "halfway c a")
    case False
    then have r1: "1 \<le> r" by (simp add: halfway_def r_def)
    have "h = 1 * h" by simp
    also have "\<dots> \<le> of_nat r * h" using r1 h0 by (intro mult_right_mono) simp_all
    finally have lo: "h \<le> t" by (simp only: t_def)
    have "r + 1 \<le> 2 * a" using r2 by simp
    then have "(of_nat (r + 1) :: rat) \<le> of_nat (2 * a)" by (simp only: of_nat_le_iff)
    then have "of_nat (r + 1) * h \<le> of_nat (2 * a) * h"
      using h0 by (intro mult_right_mono) simp_all
    then have "of_nat r * h + h \<le> 1" using h1 by (simp add: algebra_simps)
    then have hi: "t + h \<le> 1" by (simp only: t_def)
    have "Q \<le> p + 1 / 2" using yt lo dh pd by linarith
    moreover have "p + 1 / 2 < Q + 1" using yt hi dh pd h0 by linarith
    ultimately have "\<lfloor>p + 1 / 2\<rfloor> = int q" unfolding Q_def by (rule floor_unique)
    then show ?thesis using False by (simp add: mr)
  next
    case True
    then have "r = 0" by (simp add: halfway_def r_def)
    then have "t = 0" by (simp add: t_def)
    with yt have yq: "y + 1 / 2 = Q" by simp
    have lo: "Q - 1 < p + 1 / 2" using yq pd d1 by linarith
    have hi: "p + 1 / 2 < Q + 1" using yq pd d1 by linarith
    show ?thesis
    proof (cases "p < y")
      case below: True
      have "of_int (int q - 1) \<le> p + 1 / 2" using lo by (simp add: Q_def)
      moreover have "p + 1 / 2 < of_int (int q - 1) + 1" using below yq by (simp add: Q_def)
      ultimately have "\<lfloor>p + 1 / 2\<rfloor> = int q - 1" by (rule floor_unique)
      then show ?thesis using True below by (simp add: mr)
    next
      case above: False
      then have "Q \<le> p + 1 / 2" using yq by linarith
      then have "\<lfloor>p + 1 / 2\<rfloor> = int q" using hi unfolding Q_def by (rule floor_unique)
      then show ?thesis using above by (simp add: mr)
    qed
  qed
  then show ?thesis by (simp only: y_def q_def)
qed

lemma roundDouble_0: "roundDouble 0 = 0"
  by (simp add: roundDouble_def)

text \<open>
  The extent of the difference between the code and the exact formula: with up to \<open>2^44\<close>
  answered questions the percentage is the exact formula's value, except where the exact
  value is halfway between two integers and the double-precision product falls below it;
  there it is one less.
\<close>

lemma percent_extent:
  assumes a0: "0 < correct st + incorrect st" and a44: "correct st + incorrect st \<le> 2 ^ 44"
  shows "percent st =
           (if halfway (correct st) (correct st + incorrect st)
               \<and> roundDouble (roundDouble (of_nat (correct st)
                                  / of_nat (correct st + incorrect st)) * 100)
                   < of_nat (correct st) / of_nat (correct st + incorrect st) * 100
            then specPercent st - 1 else specPercent st)"
proof -
  define c where "c = correct st"
  define a where "a = correct st + incorrect st"
  define p where "p = roundDouble (roundDouble (of_nat c / of_nat a) * 100)"
  have a0': "0 < a" using a0 by (simp add: a_def)
  have a44': "a \<le> 2 ^ 44" using a44 by (simp add: a_def)
  have ca: "c \<le> a" by (simp add: c_def a_def)
  have pp: "percent st = mathRound p" using a0 by (simp add: percent_def p_def c_def a_def Let_def)
  have sp: "specPercent st = int ((200 * c + a) div (2 * a))"
    using a0 round_exact[OF a0', of c] by (simp add: specPercent_def c_def a_def)
  have near: "\<bar>p - of_nat c / of_nat a * 100\<bar> < 1 / 2 ^ 45"
  proof (cases "c = 0")
    case True
    then show ?thesis by (simp add: p_def roundDouble_0)
  next
    case False
    then have "0 < (of_nat c :: rat) / of_nat a" using a0' by simp
    moreover have "(of_nat c :: rat) / of_nat a \<le> 1" using ca a0' by simp
    ultimately show ?thesis unfolding p_def by (rule product_error)
  qed
  have "percent st = (if halfway c a \<and> p < of_nat c / of_nat a * 100
                      then specPercent st - 1 else specPercent st)"
    unfolding pp sp by (rule round_to_nearest[OF a0' a44' near])
  then show ?thesis by (simp only: p_def c_def a_def)
qed

lemma percent_none_answered: "correct st + incorrect st = 0 \<Longrightarrow> percent st = 0"
  by (simp add: percent_def)

lemma roundDouble_3_4: "roundDouble (3 / 4) = 3 / 4"
  using roundDouble_eval[of "-1" "3 / 4" 6755399441055744] by simp

lemma roundDouble_75: "roundDouble 75 = 75"
  using roundDouble_eval[of 6 75 5277655813324800] by simp

lemma percent_3_1: "percent \<lparr> total = 4, correct = 3, incorrect = 1 \<rparr> = 75"
proof -
  have "percent \<lparr> total = 4, correct = 3, incorrect = 1 \<rparr>
          = mathRound (roundDouble (roundDouble (3 / 4) * 100))"
    by (simp add: percent_def)
  also have "\<dots> = mathRound (roundDouble 75)" by (simp only: roundDouble_3_4) simp
  also have "\<dots> = mathRound 75" by (simp only: roundDouble_75)
  also have "\<dots> = 75" unfolding mathRound_def by (rule floor_unique) simp_all
  finally show ?thesis .
qed

lemma roundDouble_1_8: "roundDouble (1 / 8) = 1 / 8"
  using roundDouble_eval[of "-3" "1 / 8" 4503599627370496] by simp

lemma roundDouble_25_2: "roundDouble (25 / 2) = 25 / 2"
  using roundDouble_eval[of 3 "25 / 2" 7036874417766400] by simp

lemma percent_1_7: "percent \<lparr> total = 8, correct = 1, incorrect = 7 \<rparr> = 13"
proof -
  have "percent \<lparr> total = 8, correct = 1, incorrect = 7 \<rparr>
          = mathRound (roundDouble (roundDouble (1 / 8) * 100))"
    by (simp add: percent_def)
  also have "\<dots> = mathRound (roundDouble (25 / 2))" by (simp only: roundDouble_1_8) simp
  also have "\<dots> = mathRound (25 / 2)" by (simp only: roundDouble_25_2)
  also have "\<dots> = 13" unfolding mathRound_def by (rule floor_unique) simp_all
  finally show ?thesis .
qed

lemma roundDouble_23_40: "roundDouble (23 / 40) = 2589569785738035 / 4503599627370496"
  using roundDouble_eval[of "-1" "23 / 40" 5179139571476070] by simp

lemma roundDouble_23_40_100:
  "roundDouble (2589569785738035 / 4503599627370496 * 100) = 8092405580431359 / 140737488355328"
  using roundDouble_eval[of 5 "2589569785738035 / 4503599627370496 * 100" 8092405580431359]
  by simp

lemma percent_23_17: "percent \<lparr> total = 40, correct = 23, incorrect = 17 \<rparr> = 57"
proof -
  have "percent \<lparr> total = 40, correct = 23, incorrect = 17 \<rparr>
          = mathRound (roundDouble (roundDouble (23 / 40) * 100))"
    by (simp add: percent_def)
  also have "\<dots> = mathRound (roundDouble (2589569785738035 / 4503599627370496 * 100))"
    by (simp only: roundDouble_23_40)
  also have "\<dots> = mathRound (8092405580431359 / 140737488355328)"
    by (simp only: roundDouble_23_40_100)
  also have "\<dots> = 57" unfolding mathRound_def by (rule floor_unique) simp_all
  finally show ?thesis .
qed

lemma specPercent_23_17: "specPercent \<lparr> total = 40, correct = 23, incorrect = 17 \<rparr> = 58"
proof -
  have "round (23 / 40 * 100 :: rat) = 58" unfolding round_def by (rule floor_unique) simp_all
  then show ?thesis by (simp add: specPercent_def)
qed

text \<open>
  Claim C10. The claim gives the percentage as the nearest integer to
  \<open>correct / (correct + incorrect) * 100\<close>, and 0 when nothing is answered. The code meets
  it when nothing is answered, at 3 correct and 1 incorrect (75), and wherever the exact
  value is not halfway between two integers. It misses it at 23 correct and 17 incorrect:
  the exact value is 57.5, whose nearest integer is 58, and the code shows 57, because it
  divides before it multiplies and the product of the rounded quotient with 100 falls below
  57.5.
\<close>

theorem percent_halfway_diverges:
  "percent \<lparr> total = 40, correct = 23, incorrect = 17 \<rparr> = 57
   \<and> specPercent \<lparr> total = 40, correct = 23, incorrect = 17 \<rparr> = 58"
  using percent_23_17 specPercent_23_17 by (rule conjI)

end
